theory Spec2Isabelle
  imports Main "HOL-Library.Word" "HOL-Library.AList" "HOL-Library.Multiset"
begin

section \<open>Data model\<close>

text \<open>
  The block manager of \<^verbatim>\<open>src/block_manager.py\<close> and the node removal route of
  \<^verbatim>\<open>src/app.py\<close>, as functions on an explicit state.

  \<^item> File contents and block payloads are byte lists.
  \<^item> \<^verbatim>\<open>hashlib.md5(...).hexdigest()\<close> is a library function; every definition that hashes
    takes it as the parameter \<open>md5\<close>.
  \<^item> Node ids, file ids, block identifiers and paths are strings, built as the code builds
    them (\<^verbatim>\<open>os.path.join\<close>, f-strings).
  \<^item> A file or directory of the file system is identified by the list of its components
    from the working directory, as the kernel finds it from a path string.
\<close>

type_synonym byte = "8 word"
type_synonym bytes = "byte list"
type_synonym path = "string list"

datatype error =
  FileNotFoundError | IsADirectoryError | NotADirectoryError | OSError | KeyError

datatype 'a outcome = Returned 'a | Raised error

text \<open>
  Modelled from the spec: the class \<^verbatim>\<open>StorageVirtualNode\<close> (\<^verbatim>\<open>storage_virtual_node.py\<close> is not
  part of the sources). Section 3: total and used storage in bytes and the links to other
  nodes with their bandwidth, under the attribute names the code reads and writes:
  \<^verbatim>\<open>total_storage\<close>, \<^verbatim>\<open>used_storage\<close> (Python ints) and \<^verbatim>\<open>connections\<close>, a dict from peer id to
  bandwidth. The node's id is its key in \<^verbatim>\<open>network.nodes\<close>.
\<close>

record node =
  total_storage :: int
  used_storage :: int
  connections :: "(string \<times> int) list"

text \<open>
  Modelled from the spec: a \<^verbatim>\<open>File\<close> row (\<^verbatim>\<open>models.py\<close> is not part of the sources), with the
  two attributes the block manager reads: \<open>file_pk\<close> is \<^verbatim>\<open>File.id\<close> (the key that block rows
  refer to), \<open>file_uuid\<close> is \<^verbatim>\<open>File.file_id\<close> (the string that names the physical blocks).
\<close>

record file_row =
  file_pk :: int
  file_uuid :: string

text \<open>
  Modelled from the spec: a \<^verbatim>\<open>FileBlock\<close> row (section 6), with the attributes that
  \<^verbatim>\<open>distribute_file_blocks\<close> sets. \<open>block_id\<close> is only ever an index produced by
  \<^verbatim>\<open>enumerate\<close> and \<open>block_size\<close> only ever a \<^verbatim>\<open>len(...)\<close>, so both are naturals.
  \<open>data_path\<close> is the string that \<^verbatim>\<open>store_block\<close> returned.
\<close>

record file_block =
  block_id :: nat
  file_id :: int
  node_id :: string
  block_size :: nat
  checksum :: string
  is_replica :: bool
  replica_of_block_id :: "nat option"
  data_path :: string

text \<open>
  Modelled from the spec: the virtual disk of one node (\<^verbatim>\<open>virtual_disk.py\<close> is not part of
  the sources). Section 4.3: a fixed capacity, a used-bytes counter and a mapping from block
  identifier to stored bytes; a write beyond the capacity is rejected.
\<close>

record vdisk =
  capacity_bytes :: int
  used_bytes :: int
  stored :: "string \<rightharpoonup> bytes"

text \<open>
  The state the operations read and write:
  \<^item> \<open>nodes\<close>: \<^verbatim>\<open>network.nodes\<close>, a dict in insertion order (an association list);
  \<^item> \<open>file_blocks\<close>: the \<^verbatim>\<open>FileBlock\<close> table as the session sees it, in insertion order;
  \<^item> \<open>use_virtual_disk\<close>: the flag of the block manager;
  \<^item> \<open>vdisks\<close>: the virtual disk manager, node id to disk;
  \<^item> \<open>dirs\<close>: the directories of the file system (besides the working directory, its
    ancestors and the root, which always exist);
  \<^item> \<open>files\<close>: the regular files of the file system and their contents.
\<close>

record state =
  nodes :: "(string \<times> node) list"
  file_blocks :: "file_block list"
  use_virtual_disk :: bool
  vdisks :: "string \<rightharpoonup> vdisk"
  dirs :: "path set"
  files :: "path \<rightharpoonup> bytes"

definition BLOCK_SIZE :: nat where
  "BLOCK_SIZE = 1024 * 1024"

definition REPLICATION_FACTOR :: int where
  "REPLICATION_FACTOR = 2"

text \<open>
  \<^verbatim>\<open>blocks_dir\<close>: the default of the constructor, which is what \<^verbatim>\<open>app.py\<close> uses and what
  its node routes spell out as \<^verbatim>\<open>'blocks'\<close>.
\<close>

definition blocks_dir :: string where
  "blocks_dir = ''blocks''"

section \<open>Paths\<close>

text \<open>
  \<^verbatim>\<open>os.path.join(a, b)\<close> of \<^verbatim>\<open>posixpath\<close>: an absolute \<open>b\<close> replaces \<open>a\<close>; otherwise \<open>b\<close> is
  appended, after a separator unless \<open>a\<close> is empty or ends with one.
\<close>

definition os_path_join :: "string \<Rightarrow> string \<Rightarrow> string" where
  "os_path_join a b =
     (if b \<noteq> [] \<and> hd b = CHR ''/'' then b
      else if a = [] \<or> last a = CHR ''/'' then a @ b
      else a @ ''/'' @ b)"

text \<open>\<^verbatim>\<open>str(n)\<close> for a non-negative integer: its decimal digits.\<close>

definition digit_char :: "nat \<Rightarrow> char" where
  "digit_char d = ''0123456789'' ! d"

function str_nat :: "nat \<Rightarrow> string" where
  "str_nat n = (if n < 10 then [digit_char n] else str_nat (n div 10) @ [digit_char (n mod 10)])"
  by pat_completeness auto
termination
  by (relation "measure id") auto

declare str_nat.simps [simp del]

text \<open>
  \<^verbatim>\<open>f"{file_id}_block_{block_id}"\<close>, and the path of the block file:
  \<^verbatim>\<open>os.path.join(os.path.join(self.blocks_dir, node_id), f"{file_id}_block_{block_id}.dat")\<close>.
\<close>

definition block_identifier :: "string \<Rightarrow> nat \<Rightarrow> string" where
  "block_identifier uuid blk = uuid @ ''_block_'' @ str_nat blk"

definition block_path :: "string \<Rightarrow> string \<Rightarrow> nat \<Rightarrow> string" where
  "block_path nid uuid blk =
     (let node_dir = os_path_join blocks_dir nid;
          block_filename = uuid @ ''_block_'' @ str_nat blk @ ''.dat''
      in os_path_join node_dir block_filename)"

text \<open>
  How the kernel finds the file that a path string names, when no component is a symbolic
  link. The string is cut at every \<^verbatim>\<open>/\<close>; the walk starts at the root for an absolute path
  (written as the component \<^verbatim>\<open>/\<close>) and at the working directory (the empty list) otherwise;
  an empty component and \<^verbatim>\<open>.\<close> stay, \<^verbatim>\<open>..\<close> goes to the parent, a name goes down. Every step
  needs the place it leaves to be an existing directory, else there is no such file; so a
  path that ends in \<^verbatim>\<open>/\<close> names a directory or nothing.
\<close>

fun split_on :: "char \<Rightarrow> string \<Rightarrow> string list" where
  "split_on c [] = [[]]"
| "split_on c (x # xs) =
     (if x = c then [] # split_on c xs
      else (case split_on c xs of [] \<Rightarrow> [[x]] | y # ys \<Rightarrow> (x # y) # ys))"

definition is_dir :: "path set \<Rightarrow> path \<Rightarrow> bool" where
  "is_dir ds d \<longleftrightarrow> d \<in> ds \<or> set d \<subseteq> {''..''} \<or> d = [''/'']"

definition parent :: "path \<Rightarrow> path" where
  "parent d = (if d = [''/''] then d else if set d \<subseteq> {''..''} then d @ [''..''] else butlast d)"

fun walk :: "path set \<Rightarrow> path \<Rightarrow> string list \<Rightarrow> path option" where
  "walk ds cur [] = Some cur"
| "walk ds cur (name # rest) =
     (if \<not> is_dir ds cur then None
      else if name = [] \<or> name = ''.'' then walk ds cur rest
      else if name = ''..'' then walk ds (parent cur) rest
      else walk ds (cur @ [name]) rest)"

definition resolve :: "path set \<Rightarrow> string \<Rightarrow> path option" where
  "resolve ds p =
     walk ds (if p \<noteq> [] \<and> hd p = CHR ''/'' then [''/''] else []) (split_on CHR ''/'' p)"

text \<open>
  The file system calls of the code. The file system of the model has directories and
  regular files only, no access rights and no limit of space, so a call fails for the
  reasons given here and for no other (\<^verbatim>\<open>shutil.rmtree\<close> apart, see below).
  \<^item> \<^verbatim>\<open>open(p, 'wb')\<close> raises when there is no such place or the place is a directory;
    otherwise it gives the file, which it creates or empties.
  \<^item> \<^verbatim>\<open>os.path.exists(p)\<close>.
  \<^item> Reading as \<^verbatim>\<open>retrieve_block\<close> does it: nothing when the path does not exist, and nothing
    when \<^verbatim>\<open>open(p, 'rb')\<close> raises, which it does for a directory.
\<close>

definition open_for_write :: "state \<Rightarrow> string \<Rightarrow> error + path" where
  "open_for_write st p =
     (if p = [] then Inl FileNotFoundError
      else case resolve (dirs st) p of
             None \<Rightarrow> Inl FileNotFoundError
           | Some f \<Rightarrow> if is_dir (dirs st) f then Inl IsADirectoryError else Inr f)"

definition path_exists :: "state \<Rightarrow> string \<Rightarrow> bool" where
  "path_exists st p \<longleftrightarrow>
     p \<noteq> [] \<and> (case resolve (dirs st) p of
                  None \<Rightarrow> False
                | Some f \<Rightarrow> is_dir (dirs st) f \<or> files st f \<noteq> None)"


section \<open>Chunker\<close>

text \<open>
  The read loop of \<^verbatim>\<open>split_file_into_blocks\<close>: \<^verbatim>\<open>f.read(n)\<close> on a regular file returns the
  next \<open>n\<close> bytes, fewer at the end of the file, and the loop stops at the first empty read.
\<close>

function read_blocks :: "(bytes \<Rightarrow> string) \<Rightarrow> nat \<Rightarrow> bytes \<Rightarrow> (bytes \<times> string) list" where
  "read_blocks md5 n f =
     (if take n f = [] then []
      else (take n f, md5 (take n f)) # read_blocks md5 n (drop n f))"
  by pat_completeness auto
termination
  by (relation "measure (\<lambda>(md5, n, f). length f)") auto

declare read_blocks.simps [simp del]

definition split_file_into_blocks :: "(bytes \<Rightarrow> string) \<Rightarrow> bytes \<Rightarrow> (bytes \<times> string) list" where
  "split_file_into_blocks md5 file_data = read_blocks md5 BLOCK_SIZE file_data"

section \<open>Placement\<close>

text \<open>
  \<^verbatim>\<open>select_nodes_for_block\<close>: \<open>None\<close> for \<^verbatim>\<open>num_replicas\<close> is the default argument.
  \<^verbatim>\<open>range(k)\<close> is empty for \<open>k \<le> 0\<close>; Python's \<^verbatim>\<open>%\<close> with a positive modulus is HOL's \<open>mod\<close>.
\<close>

definition select_nodes_for_block :: "state \<Rightarrow> int \<Rightarrow> int option \<Rightarrow> string list" where
  "select_nodes_for_block st blk num_replicas =
     (let num_replicas = (case num_replicas of None \<Rightarrow> REPLICATION_FACTOR | Some r \<Rightarrow> r);
          available_nodes = map fst (nodes st)
      in if length available_nodes = 0 then []
         else map (\<lambda>i. available_nodes !
                          nat ((blk + int i) mod int (length available_nodes)))
                  [0..<nat (min num_replicas (int (length available_nodes)))])"

section \<open>Physical storage\<close>

text \<open>
  Modelled from the spec: \<^verbatim>\<open>VirtualDiskManager.store_block_in_disk\<close> and
  \<^verbatim>\<open>retrieve_block_from_disk\<close>. A store succeeds (\<open>Some\<close> of the new manager) when the node
  has a disk and the bytes fit; a retrieve returns the stored bytes or nothing.
\<close>

definition store_block_in_disk ::
  "string \<Rightarrow> bytes \<Rightarrow> string \<Rightarrow> (string \<rightharpoonup> vdisk) \<Rightarrow> (string \<rightharpoonup> vdisk) option" where
  "store_block_in_disk nid block_data key vds =
     (case vds nid of
        None \<Rightarrow> None
      | Some d \<Rightarrow>
          if used_bytes d + int (length block_data) > capacity_bytes d then None
          else Some (vds(nid \<mapsto> d\<lparr>used_bytes := used_bytes d + int (length block_data),
                                  stored := (stored d)(key \<mapsto> block_data)\<rparr>)))"

definition retrieve_block_from_disk ::
  "string \<Rightarrow> string \<Rightarrow> (string \<rightharpoonup> vdisk) \<Rightarrow> bytes option" where
  "retrieve_block_from_disk nid key vds =
     (case vds nid of None \<Rightarrow> None | Some d \<Rightarrow> stored d key)"

text \<open>
  \<^verbatim>\<open>store_block\<close>: the virtual disk first; when that is disabled or refuses, the block file,
  where \<^verbatim>\<open>open(block_path, 'wb')\<close> raises if the file cannot be created. The result is the
  string that the code returns: the \<^verbatim>\<open>vdisk://\<close> URL or the path.
\<close>

definition store_block ::
  "bytes \<Rightarrow> string \<Rightarrow> string \<Rightarrow> nat \<Rightarrow> state \<Rightarrow> error + (string \<times> state)" where
  "store_block block_data nid uuid blk st =
     (case (if use_virtual_disk st
            then store_block_in_disk nid block_data (block_identifier uuid blk) (vdisks st)
            else None) of
        Some vds \<Rightarrow>
          Inr (''vdisk://'' @ nid @ ''/'' @ block_identifier uuid blk, st\<lparr>vdisks := vds\<rparr>)
      | None \<Rightarrow>
          (case open_for_write st (block_path nid uuid blk) of
             Inl e \<Rightarrow> Inl e
           | Inr f \<Rightarrow>
               Inr (block_path nid uuid blk, st\<lparr>files := (files st)(f \<mapsto> block_data)\<rparr>)))"


section \<open>Distribution\<close>

text \<open>
  One stored copy, as lines 168 to 184 do it for the primary and lines 188 to 204 for a
  replica: store the bytes, add the row, then add the size to the node's counter.
  The state that comes with \<open>Raised\<close> is the state at the raise.
\<close>

definition store_copy ::
  "file_row \<Rightarrow> nat \<Rightarrow> bytes \<Rightarrow> string \<Rightarrow> bool \<Rightarrow> string \<Rightarrow> state \<Rightarrow> unit outcome \<times> state" where
  "store_copy file blk block_data csum replica nid st =
     (case store_block block_data nid (file_uuid file) blk st of
        Inl e \<Rightarrow> (Raised e, st)
      | Inr (path, st1) \<Rightarrow>
          let st2 = st1\<lparr>file_blocks := file_blocks st1 @
                     [\<lparr>block_id = blk, file_id = file_pk file, node_id = nid,
                       block_size = length block_data, checksum = csum,
                       is_replica = replica,
                       replica_of_block_id = (if replica then Some blk else None),
                       data_path = path\<rparr>]\<rparr>
          in case map_of (nodes st2) nid of
               None \<Rightarrow> (Raised KeyError, st2)
             | Some n \<Rightarrow>
                 (Returned (),
                  st2\<lparr>nodes := AList.map_entry nid
                         (\<lambda>n. n\<lparr>used_storage := used_storage n + int (length block_data)\<rparr>)
                         (nodes st2)\<rparr>))"

fun store_replicas ::
  "file_row \<Rightarrow> nat \<Rightarrow> bytes \<Rightarrow> string \<Rightarrow> string list \<Rightarrow> state \<Rightarrow> unit outcome \<times> state" where
  "store_replicas file blk block_data csum [] st = (Returned (), st)"
| "store_replicas file blk block_data csum (replica_node_id # rest) st =
     (case store_copy file blk block_data csum True replica_node_id st of
        (Raised e, st1) \<Rightarrow> (Raised e, st1)
      | (Returned u, st1) \<Rightarrow> store_replicas file blk block_data csum rest st1)"

fun distribute_loop ::
  "file_row \<Rightarrow> (nat \<times> bytes \<times> string) list \<Rightarrow> state \<Rightarrow> bool outcome \<times> state" where
  "distribute_loop file [] st = (Returned True, st)"
| "distribute_loop file ((blk, block_data, csum) # rest) st =
     (let node_ids = select_nodes_for_block st (int blk) None in
      if node_ids = [] then (Returned False, st)
      else case store_copy file blk block_data csum False (hd node_ids) st of
             (Raised e, st1) \<Rightarrow> (Raised e, st1)
           | (Returned u, st1) \<Rightarrow>
               (case store_replicas file blk block_data csum (tl node_ids) st1 of
                  (Raised e, st2) \<Rightarrow> (Raised e, st2)
                | (Returned u, st2) \<Rightarrow> distribute_loop file rest st2))"

definition total_size_needed :: "(bytes \<times> string) list \<Rightarrow> int" where
  "total_size_needed blocks_data =
     int (sum_list (map (\<lambda>block. length (fst block)) blocks_data)) * REPLICATION_FACTOR"

definition available_storage :: "state \<Rightarrow> int" where
  "available_storage st =
     sum_list (map (\<lambda>(nid, n). total_storage n - used_storage n) (nodes st))"

text \<open>
  \<^verbatim>\<open>distribute_file_blocks\<close>; \<open>file_data\<close> is the content of the file at \<^verbatim>\<open>file_path\<close>.
\<close>

definition distribute_file_blocks ::
  "(bytes \<Rightarrow> string) \<Rightarrow> bytes \<Rightarrow> file_row \<Rightarrow> int \<Rightarrow> state \<Rightarrow> bool outcome \<times> state" where
  "distribute_file_blocks md5 file_data file user_id st =
     (let blocks_data = split_file_into_blocks md5 file_data in
      if length blocks_data = 0 then (Returned False, st)
      else if total_size_needed blocks_data > available_storage st then (Returned False, st)
      else distribute_loop file (List.enumerate 0 blocks_data) st)"

section \<open>Reconstruction\<close>








section \<open>Deletion\<close>

text \<open>
  Lines 285 to 289: \<^verbatim>\<open>if block.data_path and os.path.exists(block.data_path)\<close>, then
  \<^verbatim>\<open>os.remove\<close>, whose exception is swallowed; it raises for a directory and removes
  a regular file. A \<^verbatim>\<open>vdisk://\<close> URL is treated as the path it spells.
\<close>

definition remove_physical :: "string \<Rightarrow> state \<Rightarrow> state" where
  "remove_physical p st =
     (if p \<noteq> [] \<and> path_exists st p
      then (case resolve (dirs st) p of
              None \<Rightarrow> st
            | Some f \<Rightarrow> if is_dir (dirs st) f then st else st\<lparr>files := (files st)(f := None)\<rparr>)
      else st)"

fun delete_loop :: "file_block list \<Rightarrow> state \<Rightarrow> state" where
  "delete_loop [] st = st"
| "delete_loop (block # rest) st =
     (let st1 = remove_physical (data_path block) st;
          st2 = (case map_of (nodes st1) (node_id block) of
                   None \<Rightarrow> st1
                 | Some n \<Rightarrow>
                     st1\<lparr>nodes := AList.map_entry (node_id block)
                            (\<lambda>n. n\<lparr>used_storage :=
                                     max 0 (used_storage n - int (block_size block))\<rparr>)
                            (nodes st1)\<rparr>);
          st3 = st2\<lparr>file_blocks := remove1 block (file_blocks st2)\<rparr>
      in delete_loop rest st3)"

definition delete_file_blocks :: "file_row \<Rightarrow> state \<Rightarrow> bool \<times> state" where
  "delete_file_blocks file st =
     (True, delete_loop (filter (\<lambda>b. file_id b = file_pk file) (file_blocks st)) st)"

section \<open>Node removal\<close>






section \<open>Vocabulary of the properties\<close>

text \<open>
  The row that \<open>store_copy\<close> appends for a copy stored at \<open>path\<close>.
\<close>

definition new_row ::
  "file_row \<Rightarrow> nat \<Rightarrow> bytes \<Rightarrow> string \<Rightarrow> bool \<Rightarrow> string \<Rightarrow> string \<Rightarrow> file_block" where
  "new_row file blk block_data csum replica nid path =
     \<lparr>block_id = blk, file_id = file_pk file, node_id = nid,
      block_size = length block_data, checksum = csum,
      is_replica = replica,
      replica_of_block_id = (if replica then Some blk else None),
      data_path = path\<rparr>"


text \<open>
  Usage accounting: the bytes that the rows assign to a node, a node's counter and
  capacity, and the consistency of a state. A dict has unique keys, so a consistent state
  has unique node ids.
\<close>

definition node_bytes :: "file_block list \<Rightarrow> string \<Rightarrow> nat" where
  "node_bytes rows nid = sum_list (map block_size (filter (\<lambda>b. node_id b = nid) rows))"

definition node_usage :: "state \<Rightarrow> string \<Rightarrow> (int \<times> int) option" where
  "node_usage st nid = map_option (\<lambda>n. (used_storage n, total_storage n)) (map_of (nodes st) nid)"

definition usage_consistent :: "state \<Rightarrow> bool" where
  "usage_consistent st \<longleftrightarrow>
     distinct (map fst (nodes st))
     \<and> (\<forall>(nid, n) \<in> set (nodes st). used_storage n = int (node_bytes (file_blocks st) nid))"

text \<open>
  The two operations that change the counters, and a call of either; a sequence of calls is
  a \<open>fold\<close> of \<open>apply_operation\<close>. The state after a call is the state it leaves, whether
  it returned or raised.
\<close>

datatype operation = Distribute bytes file_row int | Delete file_row

fun apply_operation :: "(bytes \<Rightarrow> string) \<Rightarrow> operation \<Rightarrow> state \<Rightarrow> state" where
  "apply_operation md5 (Distribute file_data file user_id) st =
     snd (distribute_file_blocks md5 file_data file user_id st)"
| "apply_operation md5 (Delete file) st = snd (delete_file_blocks file st)"

text \<open>
  Stored copies. A place that holds bytes is an entry of a node's virtual disk or a file;
  \<open>place_of\<close> is the place that a row's \<open>data_path\<close> names (none when the path names no
  file), and \<open>phys\<close> is what a place holds.
\<close>

datatype place = DiskEntry string string | OnFile path

fun phys :: "state \<Rightarrow> place \<Rightarrow> bytes option" where
  "phys st (DiskEntry nid key) = retrieve_block_from_disk nid key (vdisks st)"
| "phys st (OnFile f) = files st f"










section \<open>Invariants used in the proofs\<close>








section \<open>Example states\<close>

text \<open>
  Concrete inputs for the examples: a stand-in digest, a file row, and a network of two
  connected nodes with the given capacities, no stored blocks, the file system backend and
  the directories that the constructor of the block manager makes.
\<close>

definition demo_md5 :: "bytes \<Rightarrow> string" where
  "demo_md5 d = (if d = [] then ''d0'' else if hd d = 1 then ''d1'' else ''d2'')"

definition demo_file :: file_row where
  "demo_file = \<lparr>file_pk = 1, file_uuid = ''f1''\<rparr>"

definition demo_node :: "int \<Rightarrow> int \<Rightarrow> (string \<times> int) list \<Rightarrow> node" where
  "demo_node cap usd conns = \<lparr>total_storage = cap, used_storage = usd, connections = conns\<rparr>"

definition two_nodes :: "int \<Rightarrow> int \<Rightarrow> state" where
  "two_nodes t1 t2 =
     \<lparr>nodes = [(''node1'', demo_node t1 0 [(''node2'', 1000)]),
               (''node2'', demo_node t2 0 [(''node1'', 1000)])],
      file_blocks = [], use_virtual_disk = False, vdisks = Map.empty,
      dirs = {[''blocks''], [''blocks'', ''node1''], [''blocks'', ''node2'']},
      files = Map.empty\<rparr>"

text \<open>
  The network after a two-byte file was stored (one block, a primary on \<open>node1\<close> and a
  replica on \<open>node2\<close>); the same with the primary's bytes altered on disk; and with the
  replica's file removed as well.
\<close>

definition demo_stored :: state where
  "demo_stored = snd (distribute_file_blocks demo_md5 [1, 2] demo_file 0 (two_nodes 5 5))"

definition demo_primary :: file_block where
  "demo_primary =
     new_row demo_file 0 [1, 2] ''d1'' False ''node1'' ''blocks/node1/f1_block_0.dat''"

definition demo_replica :: file_block where
  "demo_replica =
     new_row demo_file 0 [1, 2] ''d1'' True ''node2'' ''blocks/node2/f1_block_0.dat''"








section \<open>The chunker\<close>

lemma read_blocks_Nil [simp]: "read_blocks md5 n [] = []"
  by (simp add: read_blocks.simps)

lemma read_blocks_concat: "0 < n \<Longrightarrow> concat (map fst (read_blocks md5 n f)) = f"
proof (induction md5 n f rule: read_blocks.induct)
  case (1 md5 n f)
  show ?case
  proof (cases "take n f = []")
    case True
    with "1.prems" have "f = []" by simp
    then show ?thesis by simp
  next
    case False
    with 1 show ?thesis by (subst read_blocks.simps) simp
  qed
qed

lemma read_blocks_checksum: "p \<in> set (read_blocks md5 n f) \<Longrightarrow> snd p = md5 (fst p)"
proof (induction md5 n f rule: read_blocks.induct)
  case (1 md5 n f)
  from "1.prems" have ne: "take n f \<noteq> []"
    by (subst (asm) read_blocks.simps) (auto split: if_splits)
  with "1.prems" have "p = (take n f, md5 (take n f)) \<or> p \<in> set (read_blocks md5 n (drop n f))"
    by (subst (asm) read_blocks.simps) auto
  with 1 ne show ?case by auto
qed

lemma read_blocks_nonempty: "p \<in> set (read_blocks md5 n f) \<Longrightarrow> fst p \<noteq> [] \<and> length (fst p) \<le> n"
proof (induction md5 n f rule: read_blocks.induct)
  case (1 md5 n f)
  from "1.prems" have ne: "take n f \<noteq> []"
    by (subst (asm) read_blocks.simps) (auto split: if_splits)
  with "1.prems" have "p = (take n f, md5 (take n f)) \<or> p \<in> set (read_blocks md5 n (drop n f))"
    by (subst (asm) read_blocks.simps) auto
  with 1 ne show ?case by auto
qed

lemma read_blocks_full:
  "Suc i < length (read_blocks md5 n f) \<Longrightarrow> length (fst (read_blocks md5 n f ! i)) = n"
proof (induction md5 n f arbitrary: i rule: read_blocks.induct)
  case (1 md5 n f)
  from "1.prems" have ne: "take n f \<noteq> []"
    by (subst (asm) read_blocks.simps) (auto split: if_splits)
  then have eq: "read_blocks md5 n f = (take n f, md5 (take n f)) # read_blocks md5 n (drop n f)"
    by (subst read_blocks.simps) simp
  show ?case
  proof (cases i)
    case 0
    with "1.prems" eq have "read_blocks md5 n (drop n f) \<noteq> []" by auto
    then have "drop n f \<noteq> []" by auto
    then have "n < length f" by simp
    with 0 eq show ?thesis by simp
  next
    case (Suc j)
    with "1.prems" eq have "Suc j < length (read_blocks md5 n (drop n f))" by simp
    from "1.IH"[OF ne this] Suc eq show ?thesis by simp
  qed
qed

lemma read_blocks_sum: "0 < n \<Longrightarrow> sum_list (map (\<lambda>block. length (fst block)) (read_blocks md5 n f)) = length f"
proof -
  assume "0 < n"
  then have "length (concat (map fst (read_blocks md5 n f))) = length f"
    by (simp add: read_blocks_concat)
  then show ?thesis by (simp add: length_concat comp_def)
qed


section \<open>Placement lemmas\<close>

lemma select_length:
  "length (select_nodes_for_block st i r) =
     (if nodes st = [] then 0
      else nat (min (case r of None \<Rightarrow> REPLICATION_FACTOR | Some k \<Rightarrow> k) (int (length (nodes st)))))"
  by (simp add: select_nodes_for_block_def Let_def)

lemma select_nth:
  "j < length (select_nodes_for_block st i r) \<Longrightarrow>
   select_nodes_for_block st i r ! j =
     map fst (nodes st) ! nat ((i + int j) mod int (length (nodes st)))"
  by (auto simp: select_nodes_for_block_def Let_def split: if_splits)





section \<open>Storing copies\<close>

lemma map_entry_keys: "map fst (AList.map_entry k f xs) = map fst xs"
  by (induction xs) auto

lemma map_entry_sum:
  "map_of xs k = Some v \<Longrightarrow>
   sum_list (map (\<lambda>(a, n). g n) (AList.map_entry k f xs)) =
     sum_list (map (\<lambda>(a, n). g n) xs) - g v + (g (f v) :: int)"
  by (induction xs) (auto split: if_splits)

lemma map_entry_distinct_conv:
  "distinct (map fst xs) \<Longrightarrow>
   AList.map_entry k f xs = map (\<lambda>(a, v). (a, if a = k then f v else v)) xs"
proof (induction xs)
  case Nil
  then show ?case by simp
next
  case (Cons p xs)
  obtain a v where p: "p = (a, v)" by (cases p)
  show ?case
  proof (cases "a = k")
    case True
    with Cons.prems p have "k \<notin> fst ` set xs" by auto
    then have "map (\<lambda>(a, v). (a, if a = k then f v else v)) xs = xs"
      by (intro map_idI) (auto simp: image_iff split: prod.splits)
    with True p show ?thesis by simp
  next
    case False
    with Cons p show ?thesis by simp
  qed
qed


lemma store_block_frame:
  "store_block d nid u b st = Inr (p, st1) \<Longrightarrow>
   nodes st1 = nodes st \<and> file_blocks st1 = file_blocks st \<and> dirs st1 = dirs st
   \<and> use_virtual_disk st1 = use_virtual_disk st"
  by (auto simp: store_block_def split: option.splits sum.splits if_splits)


lemma store_copy_Returned:
  assumes "store_copy file b d c rep nid st = (Returned u, st')"
  shows "\<exists>p st1 n. store_block d nid (file_uuid file) b st = Inr (p, st1)
           \<and> map_of (nodes st) nid = Some n
           \<and> st' = st1\<lparr>file_blocks := file_blocks st @ [new_row file b d c rep nid p],
                      nodes := AList.map_entry nid
                         (\<lambda>n. n\<lparr>used_storage := used_storage n + int (length d)\<rparr>) (nodes st)\<rparr>"
  using assms
  by (auto simp: store_copy_def Let_def new_row_def dest!: store_block_frame
           split: sum.splits option.splits prod.splits)

lemma store_copy_Raised:
  assumes "store_copy file b d c rep nid st = (Raised e, st')"
  shows "st' = st \<or>
         (map_of (nodes st) nid = None \<and>
          (\<exists>p st1. store_block d nid (file_uuid file) b st = Inr (p, st1)
             \<and> st' = st1\<lparr>file_blocks := file_blocks st @ [new_row file b d c rep nid p]\<rparr>))"
  using assms
  by (auto simp: store_copy_def Let_def new_row_def dest!: store_block_frame
           split: sum.splits option.splits prod.splits)


lemma store_copy_dirs:
  "dirs (snd (store_copy file b d c rep nid st)) = dirs st"
  by (auto simp: store_copy_def Let_def dest!: store_block_frame
           split: sum.splits option.splits prod.splits)


lemma store_replicas_inv:
  assumes "P st"
    and "\<And>s nid. P s \<Longrightarrow> nid \<in> set nids \<Longrightarrow> P (snd (store_copy file b d c True nid s))"
  shows "P (snd (store_replicas file b d c nids st))"
  using assms
proof (induction nids arbitrary: st)
  case Nil
  then show ?case by simp
next
  case (Cons nid nids)
  have "P (snd (store_copy file b d c True nid st))" using Cons.prems by simp
  then show ?case
    using Cons.IH Cons.prems(2)
    by (cases "store_copy file b d c True nid st") (auto split: outcome.splits)
qed

lemma distribute_loop_inv:
  assumes "P st"
    and "\<And>s b d c rep nid. P s \<Longrightarrow> (b, d, c) \<in> set blocks \<Longrightarrow>
           P (snd (store_copy file b d c rep nid s))"
  shows "P (snd (distribute_loop file blocks st))"
  using assms
proof (induction blocks arbitrary: st)
  case Nil
  then show ?case by simp
next
  case (Cons x blocks)
  obtain b d c where x: "x = (b, d, c)" by (cases x)
  let ?sel = "select_nodes_for_block st (int b) None"
  let ?s1 = "snd (store_copy file b d c False (hd ?sel) st)"
  let ?s2 = "snd (store_replicas file b d c (tl ?sel) ?s1)"
  have p1: "P ?s1" using Cons.prems x by simp
  have p2: "P ?s2"
    by (rule store_replicas_inv[where P = P and st = ?s1]) (use p1 Cons.prems(2) x in simp_all)
  have p3: "P (snd (distribute_loop file blocks ?s2))"
    by (rule Cons.IH) (use p2 Cons.prems(2) in simp_all)
  show ?case
    using Cons.prems(1) p1 p2 p3 x
    by (cases "store_copy file b d c False (hd ?sel) st";
        cases "store_replicas file b d c (tl ?sel) ?s1")
       (auto simp: Let_def split: outcome.splits)
qed



lemma select_cong_keys:
  "map fst (nodes s) = map fst (nodes st) \<Longrightarrow>
   select_nodes_for_block s i r = select_nodes_for_block st i r"
  by (simp add: select_nodes_for_block_def Let_def)

section \<open>The chunker contract, the precheck and placement\<close>

lemma split_two_blocks: "split_file_into_blocks demo_md5 (replicate BLOCK_SIZE 0 @ [1]) =
   [(replicate BLOCK_SIZE 0, ''d2''), ([1], ''d1'')]"
  by (simp add: split_file_into_blocks_def read_blocks.simps[of _ _ "_ @ _"] read_blocks.simps[of _ _ "[_]"]  BLOCK_SIZE_def demo_md5_def)

text \<open>
  Claim C8 (chunker contract). The block size is 1 MiB; the blocks of a file concatenate to
  the file; every block but the last has exactly the block size; the last block is
  non-empty and no longer than the block size; every checksum is the digest of its block's
  bytes; an empty file gives no blocks, and \<open>distribute_file_blocks\<close> then returns
  \<open>False\<close> and leaves the state as it was.
\<close>

theorem chunker_contract:
  "BLOCK_SIZE = 2 ^ 20
   \<and> concat (map fst (split_file_into_blocks md5 file_data)) = file_data
   \<and> (\<forall>i. Suc i < length (split_file_into_blocks md5 file_data) \<longrightarrow>
          length (fst (split_file_into_blocks md5 file_data ! i)) = BLOCK_SIZE)
   \<and> (split_file_into_blocks md5 file_data \<noteq> [] \<longrightarrow>
          fst (last (split_file_into_blocks md5 file_data)) \<noteq> []
        \<and> length (fst (last (split_file_into_blocks md5 file_data))) \<le> BLOCK_SIZE)
   \<and> (\<forall>p \<in> set (split_file_into_blocks md5 file_data). snd p = md5 (fst p))
   \<and> (file_data = [] \<longrightarrow> split_file_into_blocks md5 file_data = [])
   \<and> (file_data = [] \<longrightarrow>
          distribute_file_blocks md5 file_data file user_id st = (Returned False, st))"
proof -
  have pos: "0 < BLOCK_SIZE" by (simp add: BLOCK_SIZE_def)
  have 1: "BLOCK_SIZE = 2 ^ 20" by (simp add: BLOCK_SIZE_def)
  have 2: "concat (map fst (split_file_into_blocks md5 file_data)) = file_data"
    unfolding split_file_into_blocks_def by (rule read_blocks_concat[OF pos])
  have 3: "\<forall>i. Suc i < length (split_file_into_blocks md5 file_data) \<longrightarrow>
          length (fst (split_file_into_blocks md5 file_data ! i)) = BLOCK_SIZE"
    unfolding split_file_into_blocks_def by (simp add: read_blocks_full)
  have 4: "split_file_into_blocks md5 file_data \<noteq> [] \<longrightarrow>
          fst (last (split_file_into_blocks md5 file_data)) \<noteq> []
        \<and> length (fst (last (split_file_into_blocks md5 file_data))) \<le> BLOCK_SIZE"
    unfolding split_file_into_blocks_def using read_blocks_nonempty last_in_set by blast
  have 5: "\<forall>p \<in> set (split_file_into_blocks md5 file_data). snd p = md5 (fst p)"
    unfolding split_file_into_blocks_def by (simp add: read_blocks_checksum)
  have 6: "file_data = [] \<longrightarrow> split_file_into_blocks md5 file_data = []"
    by (simp add: split_file_into_blocks_def)
  have 7: "file_data = [] \<longrightarrow>
          distribute_file_blocks md5 file_data file user_id st = (Returned False, st)"
    by (simp add: distribute_file_blocks_def split_file_into_blocks_def)
  from 1 2 3 4 5 6 7 show ?thesis by blast
qed

theorem chunker_contract_witness:
  "Suc 0 < length (split_file_into_blocks demo_md5 (replicate BLOCK_SIZE 0 @ [1]))
   \<and> length (fst (split_file_into_blocks demo_md5 (replicate BLOCK_SIZE 0 @ [1]) ! 0)) = BLOCK_SIZE
   \<and> split_file_into_blocks demo_md5 (replicate BLOCK_SIZE 0 @ [1]) \<noteq> []
   \<and> fst (last (split_file_into_blocks demo_md5 (replicate BLOCK_SIZE 0 @ [1]))) = [1]
   \<and> ([1], ''d1'') \<in> set (split_file_into_blocks demo_md5 (replicate BLOCK_SIZE 0 @ [1]))
   \<and> snd ([1] :: bytes, ''d1'') = demo_md5 (fst ([1] :: bytes, ''d1''))
   \<and> split_file_into_blocks demo_md5 [] = []
   \<and> distribute_file_blocks demo_md5 [] demo_file 0 (two_nodes 5 5) = (Returned False, two_nodes 5 5)"
  using chunker_contract[of demo_md5 "replicate BLOCK_SIZE 0 @ [1]" demo_file 0 "two_nodes 5 5"]
        chunker_contract[of demo_md5 "[]" demo_file 0 "two_nodes 5 5"]
  by (simp add: split_two_blocks demo_md5_def)

lemma total_size_needed_split:
  "total_size_needed (split_file_into_blocks md5 file_data) = int (length file_data) * REPLICATION_FACTOR"
  by (simp add: total_size_needed_def split_file_into_blocks_def read_blocks_sum BLOCK_SIZE_def)


text \<open>
  Claim C2 (atomic precheck). When the file's bytes times the replication factor exceed the
  free capacity summed over all nodes, the total size that the precheck computes from the
  blocks exceeds the available storage, and \<open>distribute_file_blocks\<close> returns \<open>False\<close>
  with the state unchanged: no row, no stored bytes, no counter has changed.
\<close>

theorem atomic_precheck:
  assumes "int (length file_data) * REPLICATION_FACTOR > available_storage st"
  shows "total_size_needed (split_file_into_blocks md5 file_data) > available_storage st
         \<and> distribute_file_blocks md5 file_data file user_id st = (Returned False, st)"
  using assms by (simp add: distribute_file_blocks_def Let_def total_size_needed_split)

theorem atomic_precheck_witness:
  "int (length [1, 2, 3, 4, 5, 6 :: byte]) * REPLICATION_FACTOR > available_storage (two_nodes 5 5)
   \<and> distribute_file_blocks demo_md5 [1, 2, 3, 4, 5, 6] demo_file 0 (two_nodes 5 5)
       = (Returned False, two_nodes 5 5)"
  using atomic_precheck[where file_data = "[1, 2, 3, 4, 5, 6]" and st = "two_nodes 5 5"
          and ?md5.0 = demo_md5 and ?file = demo_file and user_id = 0]
  by (simp add: REPLICATION_FACTOR_def available_storage_def two_nodes_def demo_node_def)

text \<open>
  A factor below one selects nothing, whatever the nodes are. A replication factor is a
  number of copies, so it is at least one; the code never calls the selection with another
  one (its only call passes none, which stands for \<open>REPLICATION_FACTOR\<close>).
\<close>

lemma select_nothing:
  "R \<le> 0 \<Longrightarrow> select_nodes_for_block st i (Some R) = []"
  by (simp add: select_nodes_for_block_def Let_def min_def)

text \<open>
  Claim C5 (round-robin placement). For every block index \<open>i\<close>, every node list and every
  replication factor \<open>R\<close> (a number of copies, so \<open>1 \<le> R\<close>): the selection is empty exactly
  when there is no node; with \<open>n \<ge> 1\<close> nodes it has \<open>min R n\<close> entries, entry \<open>j\<close> is the node
  at position \<open>(i + j) mod n\<close> of the node list, and the first entry (the primary) is the node
  at position \<open>i mod n\<close>. Without a factor the selection uses \<open>REPLICATION_FACTOR\<close>, which is
  at least one.
\<close>

theorem round_robin_placement:
  assumes "1 \<le> R"
  shows "(select_nodes_for_block st i (Some R) = [] \<longleftrightarrow> nodes st = [])
     \<and> (nodes st \<noteq> [] \<longrightarrow>
          length (select_nodes_for_block st i (Some R)) = nat (min R (int (length (nodes st))))
        \<and> (\<forall>j < length (select_nodes_for_block st i (Some R)).
             select_nodes_for_block st i (Some R) ! j =
               map fst (nodes st) ! nat ((i + int j) mod int (length (nodes st))))
        \<and> hd (select_nodes_for_block st i (Some R)) =
             map fst (nodes st) ! nat (i mod int (length (nodes st))))
     \<and> select_nodes_for_block st i None = select_nodes_for_block st i (Some REPLICATION_FACTOR)
     \<and> 1 \<le> REPLICATION_FACTOR"
proof -
  let ?sel = "select_nodes_for_block st i (Some R)"
  have len: "length ?sel = (if nodes st = [] then 0 else nat (min R (int (length (nodes st)))))"
    by (simp add: select_length)
  have a: "?sel = [] \<longleftrightarrow> nodes st = []"
  proof
    assume "?sel = []"
    then have "length ?sel = 0" by simp
    with len have "nodes st = [] \<or> min R (int (length (nodes st))) \<le> 0"
      by (auto split: if_splits)
    moreover have "nodes st \<noteq> [] \<Longrightarrow> 1 \<le> int (length (nodes st))"
      by (cases "nodes st") simp_all
    ultimately show "nodes st = []" using assms by linarith
  next
    assume "nodes st = []"
    with len show "?sel = []" by simp
  qed
  have b: "\<forall>j < length ?sel. ?sel ! j = map fst (nodes st) ! nat ((i + int j) mod int (length (nodes st)))"
    by (simp add: select_nth)
  have c: "hd ?sel = map fst (nodes st) ! nat (i mod int (length (nodes st)))" if "nodes st \<noteq> []"
  proof -
    from that a have ne: "?sel \<noteq> []" by simp
    then have "hd ?sel = ?sel ! 0" by (simp add: hd_conv_nth)
    also have "\<dots> = map fst (nodes st) ! nat ((i + int 0) mod int (length (nodes st)))"
      using ne by (intro select_nth) simp
    finally show ?thesis by simp
  qed
  have d: "select_nodes_for_block st i None = select_nodes_for_block st i (Some REPLICATION_FACTOR)"
    by (simp add: select_nodes_for_block_def)
  have e: "1 \<le> REPLICATION_FACTOR"
    by (simp add: REPLICATION_FACTOR_def)
  from a b c d e len show ?thesis by simp
qed

theorem round_robin_placement_witness:
  "(1::int) \<le> 2 \<and> nodes (two_nodes 5 5) \<noteq> []
   \<and> select_nodes_for_block (two_nodes 5 5) 3 (Some 2) = [''node2'', ''node1'']
   \<and> 1 < length (select_nodes_for_block (two_nodes 5 5) 3 (Some 2))
   \<and> select_nodes_for_block (two_nodes 5 5) 3 (Some 2) ! 1 =
        map fst (nodes (two_nodes 5 5)) ! nat ((3 + int 1) mod int (length (nodes (two_nodes 5 5))))"
  using round_robin_placement[where R = 2 and st = "two_nodes 5 5" and i = 3]
  by (simp add: select_nodes_for_block_def two_nodes_def Let_def upt_rec)


section \<open>The distribution loop: no abort after the precheck, and capacity\<close>









lemma distribute_loop_dirs:
  "dirs (snd (distribute_loop file blocks st)) = dirs st"
  by (rule distribute_loop_inv[where P = "\<lambda>s. dirs s = dirs st"])
     (simp_all add: store_copy_dirs)


lemma split_small:
  "split_file_into_blocks md5 [x, y] = [([x, y], md5 [x, y])]"
  by (simp add: split_file_into_blocks_def BLOCK_SIZE_def read_blocks.simps[of _ _ "[_, _]"]
        read_blocks.simps[of _ _ "[]"])

lemma str_nat_0: "str_nat 0 = ''0''"
  by (simp add: str_nat.simps digit_char_def)

lemma demo_block_path:
  "block_path ''node1'' ''f1'' 0 = ''blocks/node1/f1_block_0.dat''"
  "block_path ''node2'' ''f1'' 0 = ''blocks/node2/f1_block_0.dat''"
  by (simp_all add: block_path_def os_path_join_def blocks_dir_def str_nat_0)

lemma demo_resolve:
  "resolve {[''blocks''], [''blocks'', ''node1''], [''blocks'', ''node2'']}
     ''blocks/node1/f1_block_0.dat'' = Some [''blocks'', ''node1'', ''f1_block_0.dat'']"
  "resolve {[''blocks''], [''blocks'', ''node1''], [''blocks'', ''node2'']}
     ''blocks/node2/f1_block_0.dat'' = Some [''blocks'', ''node2'', ''f1_block_0.dat'']"
  by (simp_all add: resolve_def is_dir_def)

lemmas eval_defs = distribute_file_blocks_def total_size_needed_def available_storage_def
  REPLICATION_FACTOR_def select_nodes_for_block_def store_copy_def store_block_def
  two_nodes_def demo_node_def demo_file_def Let_def enumerate_eq_zip upt_rec
  open_for_write_def demo_block_path demo_resolve is_dir_def

lemma demo_run:
  "distribute_file_blocks demo_md5 [1, 2] demo_file 0 (two_nodes t1 t2) =
     (if 4 > t1 + t2 then (Returned False, two_nodes t1 t2)
      else (Returned True,
        \<lparr>nodes = [(''node1'', demo_node t1 2 [(''node2'', 1000)]),
                  (''node2'', demo_node t2 2 [(''node1'', 1000)])],
         file_blocks = [new_row demo_file 0 [1, 2] ''d1'' False ''node1''
                          ''blocks/node1/f1_block_0.dat'',
                        new_row demo_file 0 [1, 2] ''d1'' True ''node2''
                          ''blocks/node2/f1_block_0.dat''],
         use_virtual_disk = False, vdisks = Map.empty,
         dirs = {[''blocks''], [''blocks'', ''node1''], [''blocks'', ''node2'']},
         files = [[''blocks'', ''node1'', ''f1_block_0.dat''] \<mapsto> [1, 2],
                  [''blocks'', ''node2'', ''f1_block_0.dat''] \<mapsto> [1, 2]]\<rparr>))"
  by (simp add: split_small eval_defs new_row_def demo_md5_def)






lemma store_copy_avail:
  assumes "store_copy file b d c rep nid st = (Returned u, st')"
  shows "available_storage st' = available_storage st - int (length d)"
proof -
  from store_copy_Returned[OF assms] obtain p st1 n where
    sb: "store_block d nid (file_uuid file) b st = Inr (p, st1)"
    and n: "map_of (nodes st) nid = Some n"
    and st': "st' = st1\<lparr>file_blocks := file_blocks st @ [new_row file b d c rep nid p],
                      nodes := AList.map_entry nid
                         (\<lambda>n. n\<lparr>used_storage := used_storage n + int (length d)\<rparr>) (nodes st)\<rparr>"
    by (elim exE conjE) (rule that)
  have "available_storage st' =
        sum_list (map (\<lambda>(a, n). total_storage n - used_storage n)
          (AList.map_entry nid (\<lambda>n. n\<lparr>used_storage := used_storage n + int (length d)\<rparr>) (nodes st)))"
    by (simp add: st' available_storage_def)
  also have "\<dots> = sum_list (map (\<lambda>(a, n). total_storage n - used_storage n) (nodes st))
                  - (total_storage n - used_storage n)
                  + (total_storage n - (used_storage n + int (length d)))"
    using map_entry_sum[OF n, where g = "\<lambda>n. total_storage n - used_storage n"
                         and f = "\<lambda>n. n\<lparr>used_storage := used_storage n + int (length d)\<rparr>"]
    by simp
  finally show ?thesis by (simp add: available_storage_def)
qed

lemma store_replicas_avail:
  "store_replicas file b d c nids st = (Returned u, st') \<Longrightarrow>
   available_storage st' = available_storage st - int (length d) * int (length nids)"
proof (induction nids arbitrary: st)
  case Nil
  then show ?case by simp
next
  case (Cons nid nids)
  obtain o1 st1 where r1: "store_copy file b d c True nid st = (o1, st1)"
    by (cases "store_copy file b d c True nid st")
  show ?case
  proof (cases o1)
    case (Raised e)
    with Cons.prems r1 show ?thesis by simp
  next
    case (Returned u1)
    with Cons.prems r1 have "store_replicas file b d c nids st1 = (Returned u, st')" by simp
    then have "available_storage st' = available_storage st1 - int (length d) * int (length nids)"
      by (rule Cons.IH)
    moreover have "available_storage st1 = available_storage st - int (length d)"
      using r1 Returned by (intro store_copy_avail) simp
    ultimately show ?thesis by (simp add: algebra_simps)
  qed
qed

lemma select_default_length_le: "int (length (select_nodes_for_block st i None)) \<le> REPLICATION_FACTOR"
proof (cases "nodes st = []")
  case True
  then show ?thesis by (simp add: select_length REPLICATION_FACTOR_def)
next
  case False
  have "int (nat (min 2 (int (length (nodes st))))) \<le> 2" by linarith
  with False show ?thesis by (simp add: select_length REPLICATION_FACTOR_def)
qed

lemma length_tl_int: "xs \<noteq> [] \<Longrightarrow> int (length xs) = 1 + int (length (tl xs))"
  by (cases xs) simp_all

lemma distribute_loop_avail:
  "distribute_loop file blocks st = (Returned True, st') \<Longrightarrow>
   available_storage st - int (sum_list (map (\<lambda>(b, d, c). length d) blocks)) * REPLICATION_FACTOR
     \<le> available_storage st'"
proof (induction blocks arbitrary: st)
  case Nil
  then show ?case by simp
next
  case (Cons x blocks)
  obtain b d c where x: "x = (b, d, c)" by (cases x)
  let ?sel = "select_nodes_for_block st (int b) None"
  obtain o1 st1 where r1: "store_copy file b d c False (hd ?sel) st = (o1, st1)"
    by (cases "store_copy file b d c False (hd ?sel) st")
  obtain o2 st2 where r2: "store_replicas file b d c (tl ?sel) st1 = (o2, st2)"
    by (cases "store_replicas file b d c (tl ?sel) st1")
  have sel: "?sel \<noteq> []"
  proof
    assume "?sel = []"
    with Cons.prems x show False by (simp add: Let_def)
  qed
  from Cons.prems x sel r1 obtain u1 where o1: "o1 = Returned u1"
    by (cases o1) (simp_all add: Let_def)
  from Cons.prems x sel r1 r2 o1 obtain u2 where o2: "o2 = Returned u2"
    by (cases o2) (simp_all add: Let_def)
  from Cons.prems x sel r1 r2 o1 o2 have rest: "distribute_loop file blocks st2 = (Returned True, st')"
    by (simp add: Let_def)
  have a1: "available_storage st1 = available_storage st - int (length d)"
    using r1 o1 by (intro store_copy_avail) simp
  have a2: "available_storage st2 = available_storage st1 - int (length d) * int (length (tl ?sel))"
    using r2 o2 by (intro store_replicas_avail) simp
  have len: "int (length ?sel) = 1 + int (length (tl ?sel))" using sel by (rule length_tl_int)
  define L where "L = int (length d)"
  define T where "T = int (length (tl ?sel))"
  define S where "S = int (sum_list (map (\<lambda>(b, d, c). length d) blocks))"
  define R where "R = REPLICATION_FACTOR"
  have "1 + T \<le> R"
    using select_default_length_le[of st "int b"] len unfolding T_def R_def by linarith
  moreover have "0 \<le> L" by (simp add: L_def)
  ultimately have m: "L * (1 + T) \<le> L * R" by (rule mult_left_mono)
  have a1': "available_storage st1 = available_storage st - L" using a1 by (simp add: L_def)
  have a2': "available_storage st2 = available_storage st1 - L * T"
    using a2 by (simp add: L_def T_def)
  have ih: "available_storage st2 - S * R \<le> available_storage st'"
    using Cons.IH[OF rest] by (simp add: S_def R_def)
  have "L * (1 + T) = L + L * T" by (simp add: distrib_left)
  with m a1' a2' ih have "available_storage st - (L + S) * R \<le> available_storage st'"
    by (simp add: distrib_right)
  moreover have "int (sum_list (map (\<lambda>(b, d, c). length d) (x # blocks))) = L + S"
    by (simp add: x L_def S_def)
  ultimately show ?case by (simp only: R_def)
qed

lemma enumerate_lengths:
  "sum_list (map (\<lambda>(b, d, c). length d) (List.enumerate k blocks))
     = sum_list (map (\<lambda>block. length (fst block)) blocks)"
  by (induction blocks arbitrary: k) (auto split: prod.splits)

lemma sum_list_diff_split:
  "sum_list (map (\<lambda>(a, n). f n - g n) xs) =
     sum_list (map (\<lambda>(a, n). f n) xs) - (sum_list (map (\<lambda>(a, n). g n) xs) :: int)"
  by (induction xs) (auto split: prod.splits)

lemma available_split:
  "available_storage st =
     sum_list (map (\<lambda>(nid, n). total_storage n) (nodes st))
     - sum_list (map (\<lambda>(nid, n). used_storage n) (nodes st))"
  unfolding available_storage_def by (rule sum_list_diff_split)

text \<open>
  Claim C3, as amended: after a successful \<open>distribute_file_blocks\<close> the used storage
  summed over all nodes is at most the total storage summed over all nodes. This is what
  the aggregate precheck gives; it needs nothing of the state before.
\<close>

theorem aggregate_capacity:
  assumes "distribute_file_blocks md5 file_data file user_id st = (Returned True, st')"
  shows "sum_list (map (\<lambda>(nid, n). used_storage n) (nodes st'))
           \<le> sum_list (map (\<lambda>(nid, n). total_storage n) (nodes st'))"
proof -
  let ?blocks = "split_file_into_blocks md5 file_data"
  from assms have pre: "\<not> total_size_needed ?blocks > available_storage st"
    and loop: "distribute_loop file (List.enumerate 0 ?blocks) st = (Returned True, st')"
    by (simp_all add: distribute_file_blocks_def Let_def split: if_splits)
  from distribute_loop_avail[OF loop]
  have "available_storage st - total_size_needed ?blocks \<le> available_storage st'"
    by (simp add: enumerate_lengths total_size_needed_def)
  with pre have "0 \<le> available_storage st'" by simp
  then show ?thesis by (simp add: available_split)
qed

theorem aggregate_capacity_witness:
  "distribute_file_blocks demo_md5 [1, 2] demo_file 0 (two_nodes 1 3)
     = (Returned True, snd (distribute_file_blocks demo_md5 [1, 2] demo_file 0 (two_nodes 1 3)))
   \<and> sum_list (map (\<lambda>(nid, n). used_storage n)
         (nodes (snd (distribute_file_blocks demo_md5 [1, 2] demo_file 0 (two_nodes 1 3))))) = 4
   \<and> sum_list (map (\<lambda>(nid, n). total_storage n)
         (nodes (snd (distribute_file_blocks demo_md5 [1, 2] demo_file 0 (two_nodes 1 3))))) = 4"
  using aggregate_capacity[where ?md5.0 = demo_md5 and file_data = "[1, 2]" and ?file = demo_file
          and user_id = 0 and st = "two_nodes 1 3"
          and st' = "snd (distribute_file_blocks demo_md5 [1, 2] demo_file 0 (two_nodes 1 3))"]
  by (simp add: demo_run demo_node_def)

text \<open>
  As stated per node, C3 fails. Two empty nodes of capacity 1 and 3 and a file of two bytes:
  the precheck passes (4 bytes needed, 4 free), both nodes receive the block, and the first
  node ends with 2 bytes used of 1.
\<close>

theorem per_node_capacity_counterexample:
  "node_usage (two_nodes 1 3) ''node1'' = Some (0, 1)
   \<and> node_usage (two_nodes 1 3) ''node2'' = Some (0, 3)
   \<and> fst (distribute_file_blocks demo_md5 [1, 2] demo_file 0 (two_nodes 1 3)) = Returned True
   \<and> node_usage (snd (distribute_file_blocks demo_md5 [1, 2] demo_file 0 (two_nodes 1 3))) ''node1''
       = Some (2, 1)"
  by (simp add: demo_run node_usage_def demo_node_def) (simp add: two_nodes_def demo_node_def)

section \<open>Node removal and usage accounting\<close>










lemma demo_stored_eq:
  "demo_stored =
        \<lparr>nodes = [(''node1'', demo_node 5 2 [(''node2'', 1000)]),
                  (''node2'', demo_node 5 2 [(''node1'', 1000)])],
         file_blocks = [demo_primary, demo_replica],
         use_virtual_disk = False, vdisks = Map.empty,
         dirs = {[''blocks''], [''blocks'', ''node1''], [''blocks'', ''node2'']},
         files = [[''blocks'', ''node1'', ''f1_block_0.dat''] \<mapsto> [1, 2],
                  [''blocks'', ''node2'', ''f1_block_0.dat''] \<mapsto> [1, 2]]\<rparr>"
  by (simp add: demo_stored_def demo_run demo_primary_def demo_replica_def)





lemma node_bytes_append:
  "node_bytes (rows @ [r]) nid = node_bytes rows nid + (if node_id r = nid then block_size r else 0)"
  by (simp add: node_bytes_def)

lemma node_bytes_remove1_same:
  assumes "r \<in> set rows"
  shows "node_bytes rows (node_id r) = block_size r + node_bytes (remove1 r rows) (node_id r)"
proof -
  let ?P = "\<lambda>b. node_id b = node_id r"
  from assms have "r \<in> set (filter ?P rows)" by simp
  then have "sum_list (map block_size (filter ?P rows))
               = block_size r + sum_list (map block_size (remove1 r (filter ?P rows)))"
    by (rule sum_list_map_remove1)
  then show ?thesis by (simp only: node_bytes_def filter_remove1)
qed

lemma node_bytes_remove1_other:
  assumes "node_id r \<noteq> nid"
  shows "node_bytes (remove1 r rows) nid = node_bytes rows nid"
proof -
  from assms have "\<not> (\<lambda>b. node_id b = nid) r" by simp
  then have "remove1 r (filter (\<lambda>b. node_id b = nid) rows) = filter (\<lambda>b. node_id b = nid) rows"
    by (rule remove1_filter_not)
  then show ?thesis by (simp only: node_bytes_def filter_remove1)
qed

lemma map_of_None_keys: "map_of xs k = None \<Longrightarrow> (a, v) \<in> set xs \<Longrightarrow> a \<noteq> k"
  by (auto simp: map_of_eq_None_iff image_iff)

lemma store_copy_consistent:
  assumes "usage_consistent st"
  shows "usage_consistent (snd (store_copy file b d c rep nid st))"
proof -
  obtain o1 st' where r: "store_copy file b d c rep nid st = (o1, st')"
    by (cases "store_copy file b d c rep nid st")
  from assms have dist: "distinct (map fst (nodes st))"
    and used: "\<And>k n. (k, n) \<in> set (nodes st) \<Longrightarrow> used_storage n = int (node_bytes (file_blocks st) k)"
    by (auto simp: usage_consistent_def)
  have "usage_consistent st'"
  proof (cases o1)
    case (Returned u)
    with r have "store_copy file b d c rep nid st = (Returned u, st')" by simp
    from store_copy_Returned[OF this] obtain p st1 n where
      sb: "store_block d nid (file_uuid file) b st = Inr (p, st1)"
      and st': "st' = st1\<lparr>file_blocks := file_blocks st @ [new_row file b d c rep nid p],
                      nodes := AList.map_entry nid
                         (\<lambda>n. n\<lparr>used_storage := used_storage n + int (length d)\<rparr>) (nodes st)\<rparr>"
      by (elim exE conjE) (rule that)
    have fb: "file_blocks st' = file_blocks st @ [new_row file b d c rep nid p]"
      by (simp add: st')
    have nd: "nodes st' = map (\<lambda>(a, v). (a, if a = nid
                 then v\<lparr>used_storage := used_storage v + int (length d)\<rparr> else v)) (nodes st)"
      using map_entry_distinct_conv[OF dist] by (simp add: st')
    have "distinct (map fst (nodes st'))"
      using dist by (simp add: st' map_entry_keys)
    moreover have "used_storage n' = int (node_bytes (file_blocks st') k)"
      if "(k, n') \<in> set (nodes st')" for k n'
    proof -
      from that obtain v where v: "(k, v) \<in> set (nodes st)"
        and n': "n' = (if k = nid then v\<lparr>used_storage := used_storage v + int (length d)\<rparr> else v)"
        unfolding nd by auto
      from used[OF v] n' show ?thesis
        by (simp add: fb node_bytes_append new_row_def)
    qed
    ultimately show ?thesis unfolding usage_consistent_def by blast
  next
    case (Raised e)
    with r have "store_copy file b d c rep nid st = (Raised e, st')" by simp
    from store_copy_Raised[OF this] show ?thesis
    proof
      assume "st' = st"
      with assms show ?thesis by simp
    next
      assume "map_of (nodes st) nid = None \<and>
          (\<exists>p st1. store_block d nid (file_uuid file) b st = Inr (p, st1)
             \<and> st' = st1\<lparr>file_blocks := file_blocks st @ [new_row file b d c rep nid p]\<rparr>)"
      then obtain p st1 where none: "map_of (nodes st) nid = None"
        and sb: "store_block d nid (file_uuid file) b st = Inr (p, st1)"
        and st': "st' = st1\<lparr>file_blocks := file_blocks st @ [new_row file b d c rep nid p]\<rparr>"
        by (elim exE conjE) (rule that)
      have nd: "nodes st' = nodes st" using store_block_frame[OF sb] by (simp add: st')
      have fb: "file_blocks st' = file_blocks st @ [new_row file b d c rep nid p]"
        by (simp add: st')
      have "used_storage n' = int (node_bytes (file_blocks st') k)"
        if "(k, n') \<in> set (nodes st')" for k n'
      proof -
        from that nd have m: "(k, n') \<in> set (nodes st)" by simp
        from map_of_None_keys[OF none m] have "k \<noteq> nid" .
        with used[OF m] show ?thesis by (simp add: fb node_bytes_append new_row_def)
      qed
      with dist nd show ?thesis unfolding usage_consistent_def by auto
    qed
  qed
  with r show ?thesis by simp
qed

lemma distribute_consistent:
  assumes "usage_consistent st"
  shows "usage_consistent (snd (distribute_file_blocks md5 file_data file user_id st))"
proof -
  have "usage_consistent (snd (distribute_loop file blocks st))" for blocks
    by (rule distribute_loop_inv[where P = usage_consistent, OF assms]) (rule store_copy_consistent)
  with assms show ?thesis by (simp add: distribute_file_blocks_def Let_def)
qed

lemma remove_physical_frame:
  "nodes (remove_physical p st) = nodes st \<and> file_blocks (remove_physical p st) = file_blocks st"
  by (simp add: remove_physical_def split: option.splits)

lemma delete_loop_consistent:
  assumes "usage_consistent st" "mset blocks \<subseteq># mset (file_blocks st)"
  shows "usage_consistent (delete_loop blocks st)"
  using assms
proof (induction blocks arbitrary: st)
  case Nil
  then show ?case by simp
next
  case (Cons block rest)
  from Cons.prems(1) have dist: "distinct (map fst (nodes st))"
    and used: "\<And>k n. (k, n) \<in> set (nodes st) \<Longrightarrow> used_storage n = int (node_bytes (file_blocks st) k)"
    by (auto simp: usage_consistent_def)
  from Cons.prems(2) have "block \<in># mset (file_blocks st)"
    by (simp add: insert_subset_eq_iff)
  then have mem: "block \<in> set (file_blocks st)" by simp
  let ?st1 = "remove_physical (data_path block) st"
  let ?upd = "\<lambda>n. n\<lparr>used_storage := max 0 (used_storage n - int (block_size block))\<rparr>"
  let ?st2 = "case map_of (nodes ?st1) (node_id block) of
                None \<Rightarrow> ?st1
              | Some n \<Rightarrow> ?st1\<lparr>nodes := AList.map_entry (node_id block) ?upd (nodes ?st1)\<rparr>"
  let ?st3 = "?st2\<lparr>file_blocks := remove1 block (file_blocks ?st2)\<rparr>"
  have step: "delete_loop (block # rest) st = delete_loop rest ?st3"
    by (simp add: Let_def)
  have fb3: "file_blocks ?st3 = remove1 block (file_blocks st)"
    using remove_physical_frame[of "data_path block" st] by (simp split: option.splits)
  have nd3: "nodes ?st3 = map (\<lambda>(a, v). (a, if a = node_id block then ?upd v else v)) (nodes st)"
  proof (cases "map_of (nodes st) (node_id block)")
    case None
    have "map (\<lambda>(a, v). (a, if a = node_id block then ?upd v else v)) (nodes st) = nodes st"
    proof (rule map_idI)
      fix x assume x: "x \<in> set (nodes st)"
      obtain a v where xa: "x = (a, v)" by (cases x)
      from x xa have "(a, v) \<in> set (nodes st)" by simp
      with None have "a \<noteq> node_id block" by (rule map_of_None_keys)
      with xa show "(case x of (a, v) \<Rightarrow> (a, if a = node_id block then ?upd v else v)) = x" by simp
    qed
    with None show ?thesis
      using remove_physical_frame[of "data_path block" st] by simp
  next
    case (Some n)
    then show ?thesis
      using remove_physical_frame[of "data_path block" st] map_entry_distinct_conv[OF dist]
      by simp
  qed
  have c3: "usage_consistent ?st3"
    unfolding usage_consistent_def
  proof (intro conjI ballI)
    show "distinct (map fst (nodes ?st3))"
      unfolding nd3 using dist by (simp add: comp_def case_prod_unfold)
  next
    fix x assume x: "x \<in> set (nodes ?st3)"
    obtain k n' where xk: "x = (k, n')" by (cases x)
    from x xk obtain v where v: "(k, v) \<in> set (nodes st)"
      and n': "n' = (if k = node_id block then ?upd v else v)"
      unfolding nd3 by auto
    have "used_storage n' = int (node_bytes (file_blocks ?st3) k)"
    proof (cases "k = node_id block")
      case True
      from node_bytes_remove1_same[OF mem] used[OF v] True
      have "used_storage v = int (block_size block) + int (node_bytes (remove1 block (file_blocks st)) k)"
        by simp
      with n' True show ?thesis unfolding fb3 by simp
    next
      case False
      then have "node_bytes (remove1 block (file_blocks st)) k = node_bytes (file_blocks st) k"
        by (intro node_bytes_remove1_other) simp
      with n' False used[OF v] show ?thesis unfolding fb3 by simp
    qed
    with xk show "case x of (nid, n) \<Rightarrow> used_storage n = int (node_bytes (file_blocks ?st3) nid)"
      by simp
  qed
  have "mset rest \<subseteq># mset (file_blocks st) - {#block#}"
    using Cons.prems(2) by (simp add: insert_subset_eq_iff)
  then have inc3: "mset rest \<subseteq># mset (file_blocks ?st3)" unfolding fb3 by simp
  from Cons.IH[OF c3 inc3] step show ?case by simp
qed

lemma delete_consistent:
  assumes "usage_consistent st"
  shows "usage_consistent (snd (delete_file_blocks file st))"
  unfolding delete_file_blocks_def using assms
  by (simp add: delete_loop_consistent)

text \<open>
  Claim C6 (usage accounting). From a consistent state (node ids are unique and every
  node's \<open>used_storage\<close> is the sum of the sizes of the block rows assigned to it), any
  sequence of \<open>distribute_file_blocks\<close> and \<open>delete_file_blocks\<close> calls, whatever each
  returns or raises, ends in a consistent state: for every node, \<open>used_storage\<close> equals the
  sum of the sizes of all rows, primary and replica, with that node's id.
\<close>

theorem usage_accounting:
  assumes "usage_consistent st"
  shows "usage_consistent (fold (apply_operation md5) ops st)
       \<and> (\<forall>(nid, n) \<in> set (nodes (fold (apply_operation md5) ops st)).
             used_storage n =
               int (sum_list (map block_size
                      (filter (\<lambda>b. node_id b = nid)
                         (file_blocks (fold (apply_operation md5) ops st))))))"
proof -
  have "usage_consistent (fold (apply_operation md5) ops st)"
    using assms
  proof (induction ops arbitrary: st)
    case Nil
    then show ?case by simp
  next
    case (Cons op ops)
    have "usage_consistent (apply_operation md5 op st)"
    proof (cases op)
      case (Distribute file_data fl user_id)
      with Cons.prems show ?thesis by (simp add: distribute_consistent)
    next
      case (Delete fl)
      with Cons.prems show ?thesis by (simp add: delete_consistent)
    qed
    then have "usage_consistent (fold (apply_operation md5) ops (apply_operation md5 op st))"
      by (rule Cons.IH)
    then show ?case by simp
  qed
  then show ?thesis by (simp add: usage_consistent_def node_bytes_def)
qed

lemma demo_delete:
  "snd (delete_file_blocks demo_file demo_stored) = (two_nodes 5 5)\<lparr>files := (files demo_stored)
       ([''blocks'', ''node1'', ''f1_block_0.dat''] := None,
        [''blocks'', ''node2'', ''f1_block_0.dat''] := None)\<rparr>"
  by (simp add: demo_stored_eq delete_file_blocks_def new_row_def demo_file_def
        demo_primary_def demo_replica_def remove_physical_def path_exists_def demo_resolve
        is_dir_def demo_node_def two_nodes_def Let_def)

theorem usage_accounting_witness:
  "usage_consistent (two_nodes 5 5)
   \<and> usage_consistent (fold (apply_operation demo_md5)
         [Distribute [1, 2] demo_file 0, Delete demo_file] (two_nodes 5 5))
   \<and> node_usage (apply_operation demo_md5 (Distribute [1, 2] demo_file 0) (two_nodes 5 5)) ''node1''
        = Some (2, 5)
   \<and> node_usage (fold (apply_operation demo_md5)
         [Distribute [1, 2] demo_file 0, Delete demo_file] (two_nodes 5 5)) ''node1'' = Some (0, 5)"
proof -
  have c: "usage_consistent (two_nodes 5 5)"
    by (simp add: usage_consistent_def two_nodes_def demo_node_def node_bytes_def)
  have s: "apply_operation demo_md5 (Distribute [1, 2] demo_file 0) (two_nodes 5 5) = demo_stored"
    by (simp add: demo_stored_def)
  have u1: "node_usage demo_stored ''node1'' = Some (2, 5)"
    by (simp add: demo_stored_eq node_usage_def demo_node_def)
  have u2: "node_usage (fold (apply_operation demo_md5)
         [Distribute [1, 2] demo_file 0, Delete demo_file] (two_nodes 5 5)) ''node1'' = Some (0, 5)"
  proof -
    have "fold (apply_operation demo_md5)
         [Distribute [1, 2] demo_file 0, Delete demo_file] (two_nodes 5 5)
          = snd (delete_file_blocks demo_file demo_stored)"
      by (simp add: demo_stored_def)
    then show ?thesis
      by (simp only: demo_delete) (simp add: node_usage_def two_nodes_def demo_node_def)
  qed
  from usage_accounting[OF c, of demo_md5 "[Distribute [1, 2] demo_file 0, Delete demo_file]"]
  have "usage_consistent (fold (apply_operation demo_md5)
         [Distribute [1, 2] demo_file 0, Delete demo_file] (two_nodes 5 5))" by simp
  with c s u1 u2 show ?thesis by simp
qed

section \<open>Rows and stored copies after a distribution\<close>










lemma phys_frame [simp]:
  "phys (st\<lparr>file_blocks := x\<rparr>) loc = phys st loc"
  "phys (st\<lparr>nodes := y\<rparr>) loc = phys st loc"
  by (cases loc; simp)+











































section \<open>Reconstruction of a stored file\<close>













































section \<open>Fallback to replicas\<close>












end
